theory Spec2Isabelle
  imports Complex_Main "HOL-Library.Sublist"
begin

section \<open>Python strings\<close>

text \<open>
  A Python \<open>str\<close> is a sequence of code points. It is modelled by \<open>string\<close>, whose
  characters are the code points below 256; on these the functions of this section compute
  what \<open>str.isspace\<close>, \<open>str.strip\<close>, \<open>str.upper\<close>, \<open>str.lower\<close> and the
  classes \<open>\s\<close>, \<open>\w\<close> of the module \<open>re\<close> compute. Upper-casing may leave the range
  (the capitals of code points 181 and 255) and may lengthen the text (code point 223
  becomes SS), so \<open>upper\<close> returns a list of code points.
\<close>

definition codes :: "string \<Rightarrow> nat list" where
  "codes s = map of_char s"

definition isspace :: "char \<Rightarrow> bool" where
  "isspace c =
     (let n = (of_char c :: nat)
      in (9 \<le> n \<and> n \<le> 13) \<or> (28 \<le> n \<and> n \<le> 32) \<or> n = 133 \<or> n = 160)"

definition strip :: "string \<Rightarrow> string" where
  "strip s = rev (dropWhile isspace (rev (dropWhile isspace s)))"

definition upper_char :: "char \<Rightarrow> nat list" where
  "upper_char c =
     (let n = (of_char c :: nat)
      in if (97 \<le> n \<and> n \<le> 122) \<or> (224 \<le> n \<and> n \<le> 254 \<and> n \<noteq> 247) then [n - 32]
         else if n = 223 then [83, 83]
         else if n = 181 then [924]
         else if n = 255 then [376]
         else [n])"

definition upper :: "string \<Rightarrow> nat list" where
  "upper s = concat (map upper_char s)"

definition lower_char :: "char \<Rightarrow> char" where
  "lower_char c =
     (let n = (of_char c :: nat)
      in if (65 \<le> n \<and> n \<le> 90) \<or> (192 \<le> n \<and> n \<le> 222 \<and> n \<noteq> 215) then char_of (n + 32)
         else c)"

definition lower :: "string \<Rightarrow> string" where
  "lower s = map lower_char s"

text \<open>\<open>sep.join(parts)\<close>.\<close>

fun join :: "string \<Rightarrow> string list \<Rightarrow> string" where
  "join sep [] = []"
| "join sep [x] = x"
| "join sep (x # y # ys) = x @ sep @ join sep (y # ys)"


section \<open>Exceptions (utils/exceptions.py)\<close>

text \<open>
  The classes of \<open>utils/exceptions.py\<close> below Python's \<open>Exception\<close>; the class
  \<open>Exception\<close> itself stands for every other exception a collaborator raises
  (\<open>ValueError\<close>, a transport error of a client library, ...). Interpreter signals that do
  not derive from \<open>Exception\<close> (\<open>KeyboardInterrupt\<close>, \<open>SystemExit\<close>) are not faults of a
  collaborator and are not modelled. An exception value carries its class and the text
  \<open>str(e)\<close>.
\<close>

datatype exc_class =
    Exception
  | AlaskaAgentException
  | SafetyValidationError
  | RAGRetrievalError
  | ResponseGenerationError
  | BigQueryConnectionError

datatype exn = Exn (class_of: exc_class) (str_of: string)

text \<open>\<open>isinstance(e, base)\<close>, read off the class statements.\<close>

fun issubclass :: "exc_class \<Rightarrow> exc_class \<Rightarrow> bool" where
  "issubclass c Exception = True"
| "issubclass c AlaskaAgentException = (c \<noteq> Exception)"
| "issubclass c base = (c = base)"

definition isinstance :: "exn \<Rightarrow> exc_class \<Rightarrow> bool" where
  "isinstance e base = issubclass (class_of e) base"


section \<open>Safety validation (app/safety_validator.py)\<close>

text \<open>\<open>self.safety_prompt_template.format(prompt=prompt)\<close>.\<close>

definition safety_prompt_template :: "string \<Rightarrow> string" where
  "safety_prompt_template prompt =
     ''You are a content safety classifier for the Alaska Snow Department. '' @
     ''Respond only with 'SAFE' or 'UNSAFE'. No explanation needed. '' @
     ''Mark prompts containing hate speech, violence, illegal activities, '' @
     ''harmful content, misleading information, or policy violations as 'UNSAFE'. '' @
     ''Snow department related queries should generally be 'SAFE'.\<newline>\<newline>'' @
     ''Prompt: '' @ prompt @ ''\<newline>Classification:''"

text \<open>
  \<open>SafetyValidator.validate_prompt_safety\<close>. The model call
  \<open>self.model.generate_content(p)\<close> followed by \<open>response.text\<close> is the parameter
  \<open>generate_content\<close>: it answers a request with a text or fails with an exception. The
  function returns what the method returns or raises, together with the list of requests
  the method sent to the model.
\<close>

definition validate_prompt_safety ::
    "(string \<Rightarrow> exn + string) \<Rightarrow> string \<Rightarrow> (exn + bool) \<times> string list" where
  "validate_prompt_safety generate_content prompt =
     (if prompt = [] \<or> strip prompt = [] then (Inr False, [])
      else
        let safety_prompt = safety_prompt_template prompt
        in (case generate_content safety_prompt of
              Inl e \<Rightarrow>
                Inl (Exn SafetyValidationError (''Safety validation error: '' @ str_of e))
            | Inr text \<Rightarrow>
                let classification = upper (strip text)
                in if classification = codes ''SAFE'' then Inr True
                   else if classification = codes ''UNSAFE'' then Inr False
                   else Inr False,
            [safety_prompt]))"


section \<open>Response generation (app/response_generator.py)\<close>

text \<open>A row of the data frame that the vector search returns.\<close>

record faq_row =
  query :: string
  question :: string
  answer :: string
  distance :: rat

text \<open>
  \<open>ResponseGenerator.retrieve_relevant_context\<close>. The parameter \<open>search\<close> is the
  BigQuery round trip \<open>self.bq_client.query(query).to_dataframe()\<close> for the query text
  built from the question and the configuration.
\<close>

definition retrieve_relevant_context ::
    "(string \<Rightarrow> exn + faq_row list) \<Rightarrow> string \<Rightarrow> exn + faq_row list" where
  "retrieve_relevant_context search user_question =
     (case search user_question of
        Inl e \<Rightarrow> Inl (Exn RAGRetrievalError (''Failed to retrieve context: '' @ str_of e))
      | Inr result_df \<Rightarrow> Inr result_df)"

definition build_context_prompt :: "string \<Rightarrow> faq_row list \<Rightarrow> string" where
  "build_context_prompt input context_df =
     (if context_df = [] then
        ''No specific FAQ information found for this query. '' @
        ''User question: '' @ input @ ''\<newline>\<newline>'' @
        ''Please provide a helpful response directing them to contact '' @
        ''the Alaska Snow Department directly.''
      else
        let context_sections =
              foldl (\<lambda>sections row.
                       sections @ [''Q: '' @ question row @ ''\<newline>A: '' @ answer row])
                    [] context_df;
            context_text = join ''\<newline>\<newline>'' context_sections
        in ''Based on the following Alaska Snow Department FAQ information, '' @
           ''please answer the user's question:\<newline>\<newline>'' @
           ''=== CONTEXT ===\<newline>'' @ context_text @ ''\<newline>\<newline>'' @
           ''=== USER QUESTION ===\<newline>'' @ input @ ''\<newline>\<newline>'' @
           ''Please provide a helpful, accurate response based on the context above.'')"

text \<open>
  \<open>ResponseGenerator.generate_assistant_response\<close>. The parameter \<open>chat\<close> is
  \<open>self.chat_model.generate_content(prompt)\<close> with the read of \<open>response.text\<close>:
  an exception, \<open>None\<close> for a missing response or text, or the text. The body of the
  \<open>try\<close> comes first, then the two handlers.
\<close>

definition generate_body ::
    "(string \<Rightarrow> exn + faq_row list) \<Rightarrow> (string \<Rightarrow> exn + string option) \<Rightarrow> string
      \<Rightarrow> exn + string" where
  "generate_body search chat input =
     (case retrieve_relevant_context search input of
        Inl e \<Rightarrow> Inl e
      | Inr context_df \<Rightarrow>
          let prompt = build_context_prompt input context_df
          in (case chat prompt of
                Inl e \<Rightarrow> Inl e
              | Inr None \<Rightarrow> Inl (Exn ResponseGenerationError ''Model returned empty response'')
              | Inr (Some text) \<Rightarrow>
                  if text = [] then
                    Inl (Exn ResponseGenerationError ''Model returned empty response'')
                  else Inr (strip text)))"

definition generate_assistant_response ::
    "(string \<Rightarrow> exn + faq_row list) \<Rightarrow> (string \<Rightarrow> exn + string option) \<Rightarrow> string
      \<Rightarrow> exn + string" where
  "generate_assistant_response search chat input =
     (case generate_body search chat input of
        Inr text \<Rightarrow> Inr text
      | Inl e \<Rightarrow>
          if isinstance e RAGRetrievalError then Inl e
          else if isinstance e Exception then
            Inl (Exn ResponseGenerationError (''Failed to generate response: '' @ str_of e))
          else Inl e)"


section \<open>The orchestrator (app/core_engine.py)\<close>

record PipelineResult =
  request_id :: nat
  user_input :: string
  response :: string
  success :: bool
  error :: "string option"
  safety_passed :: bool
  context_retrieved :: bool

definition default_error_message :: string where
  "default_error_message =
     ''I apologize, but I'm experiencing technical difficulties. '' @
     ''Please contact the Alaska Snow Department directly for assistance.''"

definition safety_blocked_message :: string where
  "safety_blocked_message =
     ''I'm sorry, but your message was flagged by our safety filters. '' @
     ''Please rephrase your question and try again.''"

text \<open>
  \<open>AlaskaSnowAgent.process_user_request\<close>, in the order of the source: the initial
  dictionary \<open>result\<close>, the body of the \<open>try\<close>, the three handlers. The request id is
  \<open>id(user_input)\<close>, an address, given here as a parameter.
\<close>

definition initial_result :: "nat \<Rightarrow> string \<Rightarrow> PipelineResult" where
  "initial_result rid input =
     \<lparr>request_id = rid, user_input = input, response = [], success = False,
      error = None, safety_passed = False, context_retrieved = False\<rparr>"

text \<open>
  The body updates the dictionary step by step, so it returns the dictionary as it stands
  when the body ends, with the exception that ended it, if one did. The parameters
  \<open>validate\<close> and \<open>generate\<close> are the two methods the orchestrator calls (the tests
  replace them by mocks).
\<close>

definition try_body ::
    "(string \<Rightarrow> exn + bool) \<Rightarrow> (string \<Rightarrow> exn + string) \<Rightarrow> string \<Rightarrow> PipelineResult
      \<Rightarrow> PipelineResult \<times> exn option" where
  "try_body validate generate input result =
     (case validate input of
        Inl e \<Rightarrow> (result, Some e)
      | Inr safe \<Rightarrow>
          if \<not> safe then
            (result\<lparr>response := safety_blocked_message,
                    error := Some ''Safety validation failed''\<rparr>, None)
          else
            let result = result\<lparr>safety_passed := True\<rparr>
            in (case generate input of
                  Inl e \<Rightarrow> (result, Some e)
                | Inr reply \<Rightarrow>
                    (result\<lparr>response := reply, context_retrieved := True, success := True\<rparr>,
                     None)))"

text \<open>
  The \<open>except\<close> clauses, tried in their order. \<open>Inl\<close> is an exception that no clause
  takes and that reaches the caller.
\<close>

definition except_clauses :: "PipelineResult \<Rightarrow> exn \<Rightarrow> exn + PipelineResult" where
  "except_clauses result e =
     (if isinstance e SafetyValidationError then
        Inr (result\<lparr>response := safety_blocked_message, error := Some (str_of e)\<rparr>)
      else if isinstance e RAGRetrievalError \<or> isinstance e ResponseGenerationError then
        Inr (result\<lparr>response := default_error_message, error := Some (str_of e)\<rparr>)
      else if isinstance e Exception then
        Inr (result\<lparr>response := default_error_message,
                    error := Some (''Unexpected error: '' @ str_of e)\<rparr>)
      else Inl e)"

definition process_user_request ::
    "(string \<Rightarrow> exn + bool) \<Rightarrow> (string \<Rightarrow> exn + string) \<Rightarrow> nat \<Rightarrow> string
      \<Rightarrow> exn + PipelineResult" where
  "process_user_request validate generate rid input =
     (case try_body validate generate input (initial_result rid input) of
        (result, None) \<Rightarrow> Inr result
      | (result, Some e) \<Rightarrow> except_clauses result e)"

text \<open>
  The global \<open>alaska_agent\<close>: the orchestrator over the validator and the generator of
  this repository, with the three external services as parameters.
\<close>

definition alaska_agent ::
    "(string \<Rightarrow> exn + string) \<Rightarrow> (string \<Rightarrow> exn + faq_row list)
      \<Rightarrow> (string \<Rightarrow> exn + string option) \<Rightarrow> nat \<Rightarrow> string \<Rightarrow> exn + PipelineResult" where
  "alaska_agent generate_content search chat rid input =
     process_user_request (\<lambda>p. fst (validate_prompt_safety generate_content p))
       (generate_assistant_response search chat) rid input"

section \<open>Response evaluation (evaluation/response_evaluator.py)\<close>

text \<open>
  The scores are Python floats. The fluency score is built from the constants 5.0, 1.5,
  1.0 and 0.5 by additions that are exact in binary floating point, and the two quotients
  are compared with 5, 25, 0.5 and 0.8, where the rounded quotient of two list lengths
  below \<open>2 ^ 48\<close> falls on the same side as the exact one. So the scores are modelled by
  rationals.
\<close>

definition sentence_end :: "char \<Rightarrow> bool" where
  "sentence_end c = (c = CHR ''.'' \<or> c = CHR ''!'' \<or> c = CHR ''?'')"

definition is_A_Z :: "char \<Rightarrow> bool" where
  "is_A_Z c = (let n = (of_char c :: nat) in 65 \<le> n \<and> n \<le> 90)"

definition is_word_char :: "char \<Rightarrow> bool" where
  "is_word_char c =
     (let n = (of_char c :: nat)
      in (48 \<le> n \<and> n \<le> 57) \<or> (65 \<le> n \<and> n \<le> 90) \<or> n = 95 \<or> (97 \<le> n \<and> n \<le> 122) \<or>
         n = 170 \<or> n = 178 \<or> n = 179 \<or> n = 181 \<or> n = 185 \<or> n = 186 \<or>
         (188 \<le> n \<and> n \<le> 190) \<or> (192 \<le> n \<and> n \<le> 214) \<or> (216 \<le> n \<and> n \<le> 246) \<or>
         (248 \<le> n \<and> n \<le> 255))"

text \<open>
  \<open>re.split(r'(?<=[.!?])\s+(?=[A-Z])', s)\<close>. The scan keeps the character before the
  position (for the look-behind), the piece collected since the last match, and the rest
  of the input. The pattern matches at a position when the character before it ends a
  sentence, a run of white space starts there, and the character after the whole run is
  one of A to Z; a shorter part of the run is followed by white space, so backtracking
  finds no other match. The match takes the run, and the scan goes on behind it.
\<close>

definition lookbehind :: "char option \<Rightarrow> bool" where
  "lookbehind prev = (case prev of None \<Rightarrow> False | Some p \<Rightarrow> sentence_end p)"

definition lookahead :: "string \<Rightarrow> bool" where
  "lookahead rest = (case rest of [] \<Rightarrow> False | d # _ \<Rightarrow> is_A_Z d)"

function re_split :: "char option \<Rightarrow> string \<Rightarrow> string \<Rightarrow> string list" where
  "re_split prev piece [] = [piece]"
| "re_split prev piece (c # cs) =
     (if lookbehind prev \<and> isspace c \<and> lookahead (dropWhile isspace cs)
      then piece # re_split (Some (last (c # takeWhile isspace cs))) [] (dropWhile isspace cs)
      else re_split (Some c) (piece @ [c]) cs)"
  by pat_completeness auto
termination
  by (relation "measure (\<lambda>(prev, piece, rest). length rest)")
     (auto simp: less_Suc_eq_le length_dropWhile_le)

definition split_into_sentences :: "string \<Rightarrow> string list" where
  "split_into_sentences text =
     (let sentences = re_split None [] (strip text)
      in map strip (filter (\<lambda>s. strip s \<noteq> []) sentences))"

text \<open>
  \<open>re.findall(r'\b\w+\b', s)\<close>: the maximal runs of word characters, from left to
  right. The first argument is the run being collected.
\<close>

fun findall_words :: "string \<Rightarrow> string \<Rightarrow> string list" where
  "findall_words word [] = (if word = [] then [] else [word])"
| "findall_words word (c # cs) =
     (if is_word_char c then findall_words (word @ [c]) cs
      else if word = [] then findall_words [] cs
      else word # findall_words [] cs)"

definition tokenize_words :: "string \<Rightarrow> string list" where
  "tokenize_words text = findall_words [] (lower text)"

definition compute_fluency_score :: "string \<Rightarrow> rat" where
  "compute_fluency_score text =
     (if text = [] \<or> strip text = [] then 1
      else
        let sentences = split_into_sentences text;
            words = tokenize_words text
        in if sentences = [] \<or> words = [] then 1
           else
             let avg_sentence_length =
                   (of_nat (length words) / of_nat (length sentences) :: rat);
                 word_variety =
                   (if words \<noteq> [] then of_nat (card (set words)) / of_nat (length words)
                    else (0 :: rat));
                 score = (5 :: rat);
                 score = (if avg_sentence_length < 5 then score - 3 / 2
                          else if avg_sentence_length > 25 then score - 1
                          else score);
                 score = (if word_variety < 1 / 2 then score - 1
                          else if word_variety > 4 / 5 then score + 1 / 2
                          else score)
             in max 1 (min 5 score))"

text \<open>
  The scoring rule in the words of the specification, as a function of the two quotients:
  start at 5, subtract 1.5 if the average sentence length is below 5, else subtract 1 if
  it is above 25; subtract 1 if the word variety is below 0.5, else add 0.5 if it is above
  0.8; clamp to the range from 1 to 5.
\<close>

definition fluency_rule :: "rat \<Rightarrow> rat \<Rightarrow> rat" where
  "fluency_rule avg_sentence_length word_variety =
     max 1 (min 5
       (5 - (if avg_sentence_length < 5 then 3 / 2
             else if avg_sentence_length > 25 then 1 else 0)
          + (if word_variety < 1 / 2 then - 1
             else if word_variety > 4 / 5 then 1 / 2 else 0)))"

text \<open>
  The sentence rule in the words of the specification: a sentence boundary occurs after
  \<open>.\<close>, \<open>!\<close> or \<open>?\<close> followed by white space and then a letter. The text \<open>s\<close>
  has such a place when it can be cut as below. The class of the letter is a parameter:
  the pattern of the code asks for one of A to Z, the specification for an upper-case
  letter.
\<close>

definition sentence_boundary :: "(char \<Rightarrow> bool) \<Rightarrow> string \<Rightarrow> bool" where
  "sentence_boundary letter s =
     (\<exists>a c ws d b. s = a @ c # ws @ d # b \<and> sentence_end c \<and> ws \<noteq> [] \<and>
                   list_all isspace ws \<and> letter d)"

text \<open>
  Python's \<open>str.isupper\<close> on one character and \<open>str.casefold\<close>, for the upper-case
  letters and the case folding that the specification names. The code calls neither. Case
  folding sends code point 223 to ss and code point 181 out of the range, so \<open>casefold\<close>
  returns a list of code points.
\<close>

definition isupper :: "char \<Rightarrow> bool" where
  "isupper c =
     (let n = (of_char c :: nat)
      in (65 \<le> n \<and> n \<le> 90) \<or> (192 \<le> n \<and> n \<le> 214) \<or> (216 \<le> n \<and> n \<le> 222))"

definition casefold_char :: "char \<Rightarrow> nat list" where
  "casefold_char c =
     (let n = (of_char c :: nat)
      in if n = 223 then [115, 115]
         else if n = 181 then [956]
         else [of_char (lower_char c)])"

definition casefold :: "string \<Rightarrow> nat list" where
  "casefold s = concat (map casefold_char s)"

text \<open>
  \<open>round(x, 2)\<close>: the multiple of 0.01 nearest to the exact value of the float
  \<open>x\<close>, a tie to the even one. The result stands for the float nearest to it.
\<close>

definition round2 :: "rat \<Rightarrow> rat" where
  "round2 x =
     (let y = x * 100; f = \<lfloor>y\<rfloor>; d = y - of_int f
      in (if d < 1 / 2 then of_int f
          else if d > 1 / 2 then of_int (f + 1)
          else if even f then of_int f
          else of_int (f + 1)) / 100)"

text \<open>
  \<open>ResponseEvaluator.compute_semantic_similarity\<close>. The parameter \<open>cos_sim\<close> is the
  embedding model with \<open>util.pytorch_cos_sim(...).item()\<close>: an exception, or the
  cosine of the two embeddings, an entry of a single-precision tensor read as a Python
  float. Such a number has 24 significant bits, so its product with 5 is exact in double
  precision and is the rational product taken here; for a cosine with more bits the code
  rounds the product first. A cosine that is not a number is not modelled.
\<close>

definition compute_semantic_similarity ::
    "(string \<Rightarrow> string \<Rightarrow> exn + rat) \<Rightarrow> string \<Rightarrow> string \<Rightarrow> rat" where
  "compute_semantic_similarity cos_sim reference prediction =
     (case cos_sim reference prediction of
        Inl e \<Rightarrow> 0
      | Inr cosine_similarity \<Rightarrow> round2 (cosine_similarity * 5))"


section \<open>The orchestrator returns a result on every path\<close>

lemma isinstance_Exception: "isinstance e Exception"
  by (simp add: isinstance_def)

lemma isinstance_leaf:
  "isinstance e SafetyValidationError = (class_of e = SafetyValidationError)"
  "isinstance e RAGRetrievalError = (class_of e = RAGRetrievalError)"
  "isinstance e ResponseGenerationError = (class_of e = ResponseGenerationError)"
  by (simp_all add: isinstance_def)

lemma except_clauses_result:
  "except_clauses result e =
     Inr (if class_of e = SafetyValidationError
          then result\<lparr>response := safety_blocked_message, error := Some (str_of e)\<rparr>
          else if class_of e = RAGRetrievalError \<or> class_of e = ResponseGenerationError
          then result\<lparr>response := default_error_message, error := Some (str_of e)\<rparr>
          else result\<lparr>response := default_error_message,
                      error := Some (''Unexpected error: '' @ str_of e)\<rparr>)"
  by (simp add: except_clauses_def isinstance_Exception isinstance_leaf)

lemma request_validate_raises:
  "validate input = Inl e \<Longrightarrow>
   process_user_request validate generate rid input =
     except_clauses (initial_result rid input) e"
  by (simp add: process_user_request_def try_body_def)

lemma request_blocked:
  "validate input = Inr False \<Longrightarrow>
   process_user_request validate generate rid input =
     Inr ((initial_result rid input)\<lparr>response := safety_blocked_message,
                                      error := Some ''Safety validation failed''\<rparr>)"
  by (simp add: process_user_request_def try_body_def)

lemma request_generate_raises:
  "validate input = Inr True \<Longrightarrow> generate input = Inl e \<Longrightarrow>
   process_user_request validate generate rid input =
     except_clauses ((initial_result rid input)\<lparr>safety_passed := True\<rparr>) e"
  by (simp add: process_user_request_def try_body_def)

lemma request_responded:
  "validate input = Inr True \<Longrightarrow> generate input = Inr reply \<Longrightarrow>
   process_user_request validate generate rid input =
     Inr ((initial_result rid input)\<lparr>safety_passed := True, response := reply,
                                      context_retrieved := True, success := True\<rparr>)"
  by (simp add: process_user_request_def try_body_def)

lemma request_cases:
  obtains (validate_raises) e where "validate input = Inl e"
  | (blocked) "validate input = Inr False"
  | (generate_raises) e where "validate input = Inr True" "generate input = Inl e"
  | (responded) reply where "validate input = Inr True" "generate input = Inr reply"
proof (cases "validate input")
  case (Inl e)
  then show ?thesis by (rule validate_raises)
next
  case (Inr safe)
  show ?thesis
  proof (cases safe)
    case False
    with Inr show ?thesis by (simp add: blocked)
  next
    case True
    with Inr have v: "validate input = Inr True" by simp
    show ?thesis
    proof (cases "generate input")
      case (Inl e)
      with v show ?thesis by (rule generate_raises)
    next
      case (Inr reply)
      with v show ?thesis by (rule responded)
    qed
  qed
qed

text \<open>
  C1. For every input string and whatever the two collaborators return or raise,
  \<open>process_user_request\<close> returns a result for that request and raises nothing; an
  exception of neither of the three classified kinds, raised by the validator or by the
  generator, gives the technical-difficulty message, no success, and the error text
  "Unexpected error: " followed by the exception's message.
\<close>

theorem process_user_request_never_raises:
  "\<exists>r. process_user_request validate generate rid input = Inr r \<and>
       request_id r = rid \<and> user_input r = input \<and>
       (\<forall>e. (validate input = Inl e \<or> (validate input = Inr True \<and> generate input = Inl e)) \<and>
            class_of e \<notin> {SafetyValidationError, RAGRetrievalError, ResponseGenerationError}
            \<longrightarrow> response r = default_error_message \<and> \<not> success r \<and>
                error r = Some (''Unexpected error: '' @ str_of e))"
proof (cases rule: request_cases [where validate = validate and input = input
                                   and generate = generate])
  case (validate_raises e)
  then show ?thesis
    by (simp add: request_validate_raises except_clauses_result initial_result_def)
next
  case blocked
  then show ?thesis
    by (simp add: request_blocked initial_result_def)
next
  case (generate_raises e)
  then show ?thesis
    by (simp add: request_generate_raises except_clauses_result initial_result_def)
next
  case (responded reply)
  then show ?thesis
    by (simp add: request_responded initial_result_def)
qed

theorem process_user_request_never_raises_witness:
  "\<exists>r. process_user_request (\<lambda>p. Inl (Exn Exception ''connection reset''))
          (\<lambda>p. Inr ''Plows run daily.'') 7 ''Is the pass open?'' = Inr r \<and>
       response r = default_error_message \<and> \<not> success r \<and>
       error r = Some ''Unexpected error: connection reset''"
proof -
  let ?v = "\<lambda>p :: string. (Inl (Exn Exception ''connection reset'') :: exn + bool)"
  let ?g = "\<lambda>p :: string. (Inr ''Plows run daily.'' :: exn + string)"
  from process_user_request_never_raises [of ?v ?g 7 "''Is the pass open?''"]
  obtain r where r: "process_user_request ?v ?g 7 ''Is the pass open?'' = Inr r"
    and unexpected:
      "\<forall>e. (?v ''Is the pass open?'' = Inl e \<or>
            (?v ''Is the pass open?'' = Inr True \<and> ?g ''Is the pass open?'' = Inl e)) \<and>
           class_of e \<notin> {SafetyValidationError, RAGRetrievalError, ResponseGenerationError}
           \<longrightarrow> response r = default_error_message \<and> \<not> success r \<and>
               error r = Some (''Unexpected error: '' @ str_of e)"
    by blast
  from unexpected [rule_format, of "Exn Exception ''connection reset''"]
  have "response r = default_error_message \<and> \<not> success r \<and>
        error r = Some ''Unexpected error: connection reset''"
    by simp
  with r show ?thesis by blast
qed

text \<open>
  C2. Every result of \<open>process_user_request\<close>, whatever the collaborators do, satisfies:
  success implies no error and a passed safety check; a safety check that did not pass
  implies no success.
\<close>

theorem process_user_request_invariant:
  "\<exists>r. process_user_request validate generate rid input = Inr r \<and>
       (success r \<longrightarrow> error r = None \<and> safety_passed r) \<and>
       (\<not> safety_passed r \<longrightarrow> \<not> success r)"
proof (cases rule: request_cases [where validate = validate and input = input
                                   and generate = generate])
  case (validate_raises e)
  then show ?thesis
    by (simp add: request_validate_raises except_clauses_result initial_result_def)
next
  case blocked
  then show ?thesis
    by (simp add: request_blocked initial_result_def)
next
  case (generate_raises e)
  then show ?thesis
    by (simp add: request_generate_raises except_clauses_result initial_result_def)
next
  case (responded reply)
  then show ?thesis
    by (simp add: request_responded initial_result_def)
qed

theorem process_user_request_invariant_witness:
  "(\<exists>r. process_user_request (\<lambda>p. Inr True) (\<lambda>p. Inr ''Plows run daily.'') 7
           ''Is the pass open?'' = Inr r \<and>
        success r \<and> error r = None \<and> safety_passed r) \<and>
   (\<exists>r. process_user_request (\<lambda>p. Inr False) (\<lambda>p. Inr ''Plows run daily.'') 8
           ''How to make a dangerous device?'' = Inr r \<and>
        \<not> safety_passed r \<and> \<not> success r)"
proof
  let ?v = "\<lambda>p :: string. (Inr True :: exn + bool)"
  let ?g = "\<lambda>p :: string. (Inr ''Plows run daily.'' :: exn + string)"
  from process_user_request_invariant [of ?v ?g 7 "''Is the pass open?''"]
  obtain r where r: "process_user_request ?v ?g 7 ''Is the pass open?'' = Inr r"
    and inv: "success r \<longrightarrow> error r = None \<and> safety_passed r"
    by blast
  from r have "success r"
    by (auto simp: request_responded initial_result_def)
  with inv r
  show "\<exists>r. process_user_request ?v ?g 7 ''Is the pass open?'' = Inr r \<and>
          success r \<and> error r = None \<and> safety_passed r"
    by blast
next
  let ?v = "\<lambda>p :: string. (Inr False :: exn + bool)"
  let ?g = "\<lambda>p :: string. (Inr ''Plows run daily.'' :: exn + string)"
  from process_user_request_invariant [of ?v ?g 8 "''How to make a dangerous device?''"]
  obtain r where r: "process_user_request ?v ?g 8 ''How to make a dangerous device?'' = Inr r"
    and inv: "\<not> safety_passed r \<longrightarrow> \<not> success r"
    by blast
  from r have "\<not> safety_passed r"
    by (auto simp: request_blocked initial_result_def)
  with inv r
  show "\<exists>r. process_user_request ?v ?g 8 ''How to make a dangerous device?'' = Inr r \<and>
          \<not> safety_passed r \<and> \<not> success r"
    by blast
qed

text \<open>
  C4. The flag \<open>safety_passed\<close> tells a rejected or unjudged request from a fault after
  the safety check: a \<open>SafetyValidationError\<close> of the validator gives the blocked
  message, the exception's text as error and \<open>safety_passed = False\<close>; a
  \<open>RAGRetrievalError\<close> or \<open>ResponseGenerationError\<close> of the generator gives the
  technical-difficulty message, no success, the exception's text as error and
  \<open>safety_passed = True\<close>.
\<close>

theorem process_user_request_fault_kinds:
  "(validate input = Inl e \<and> class_of e = SafetyValidationError \<longrightarrow>
      process_user_request validate generate rid input =
        Inr \<lparr>request_id = rid, user_input = input, response = safety_blocked_message,
             success = False, error = Some (str_of e), safety_passed = False,
             context_retrieved = False\<rparr>) \<and>
   (validate input = Inr True \<and> generate input = Inl e \<and>
    (class_of e = RAGRetrievalError \<or> class_of e = ResponseGenerationError) \<longrightarrow>
      process_user_request validate generate rid input =
        Inr \<lparr>request_id = rid, user_input = input, response = default_error_message,
             success = False, error = Some (str_of e), safety_passed = True,
             context_retrieved = False\<rparr>)"
proof (intro conjI impI)
  assume "validate input = Inl e \<and> class_of e = SafetyValidationError"
  then show "process_user_request validate generate rid input =
        Inr \<lparr>request_id = rid, user_input = input, response = safety_blocked_message,
             success = False, error = Some (str_of e), safety_passed = False,
             context_retrieved = False\<rparr>"
    by (simp add: request_validate_raises except_clauses_result initial_result_def)
next
  assume "validate input = Inr True \<and> generate input = Inl e \<and>
    (class_of e = RAGRetrievalError \<or> class_of e = ResponseGenerationError)"
  then show "process_user_request validate generate rid input =
        Inr \<lparr>request_id = rid, user_input = input, response = default_error_message,
             success = False, error = Some (str_of e), safety_passed = True,
             context_retrieved = False\<rparr>"
    by (auto simp add: request_generate_raises except_clauses_result initial_result_def)
qed

theorem process_user_request_fault_kinds_witness:
  "process_user_request (\<lambda>p. Inl (Exn SafetyValidationError ''Safety validation error: timeout''))
     (\<lambda>p. Inr ''Plows run daily.'') 7 ''Is the pass open?'' =
     Inr \<lparr>request_id = 7, user_input = ''Is the pass open?'',
          response = safety_blocked_message, success = False,
          error = Some ''Safety validation error: timeout'', safety_passed = False,
          context_retrieved = False\<rparr> \<and>
   process_user_request (\<lambda>p. Inr True) (\<lambda>p. Inl (Exn ResponseGenerationError ''Test error''))
     8 ''What are your services?'' =
     Inr \<lparr>request_id = 8, user_input = ''What are your services?'',
          response = default_error_message, success = False,
          error = Some ''Test error'', safety_passed = True,
          context_retrieved = False\<rparr>"
proof
  let ?e = "Exn SafetyValidationError ''Safety validation error: timeout''"
  let ?v = "\<lambda>p :: string. (Inl ?e :: exn + bool)"
  let ?g = "\<lambda>p :: string. (Inr ''Plows run daily.'' :: exn + string)"
  have "?v ''Is the pass open?'' = Inl ?e \<and> class_of ?e = SafetyValidationError"
    by simp
  with process_user_request_fault_kinds [of ?v "''Is the pass open?''" ?e ?g 7]
  show "process_user_request ?v ?g 7 ''Is the pass open?'' =
     Inr \<lparr>request_id = 7, user_input = ''Is the pass open?'',
          response = safety_blocked_message, success = False,
          error = Some ''Safety validation error: timeout'', safety_passed = False,
          context_retrieved = False\<rparr>"
    by simp
next
  let ?e = "Exn ResponseGenerationError ''Test error''"
  let ?v = "\<lambda>p :: string. (Inr True :: exn + bool)"
  let ?g = "\<lambda>p :: string. (Inl ?e :: exn + string)"
  have "?v ''What are your services?'' = Inr True \<and> ?g ''What are your services?'' = Inl ?e \<and>
        (class_of ?e = RAGRetrievalError \<or> class_of ?e = ResponseGenerationError)"
    by simp
  with process_user_request_fault_kinds [of ?v "''What are your services?''" ?e ?g 8]
  show "process_user_request ?v ?g 8 ''What are your services?'' =
     Inr \<lparr>request_id = 8, user_input = ''What are your services?'',
          response = default_error_message, success = False,
          error = Some ''Test error'', safety_passed = True,
          context_retrieved = False\<rparr>"
    by simp
qed

text \<open>
  C10. In every result of \<open>process_user_request\<close> the flag \<open>context_retrieved\<close> equals
  \<open>success\<close>. In particular, for the agent of this repository: when the safety check
  passes, the retrieval returns its rows and the generator then raises a
  \<open>ResponseGenerationError\<close>, the result has \<open>context_retrieved = False\<close>.
\<close>

theorem context_retrieved_iff_success:
  "(\<exists>r. process_user_request validate generate rid input = Inr r \<and>
        (context_retrieved r \<longleftrightarrow> success r)) \<and>
   (fst (validate_prompt_safety generate_content input) = Inr True \<and>
    retrieve_relevant_context search input = Inr rows \<and>
    generate_assistant_response search chat input = Inl e \<and>
    class_of e = ResponseGenerationError \<longrightarrow>
      alaska_agent generate_content search chat rid input =
        Inr \<lparr>request_id = rid, user_input = input, response = default_error_message,
             success = False, error = Some (str_of e), safety_passed = True,
             context_retrieved = False\<rparr>)"
proof (intro conjI impI)
  show "\<exists>r. process_user_request validate generate rid input = Inr r \<and>
        (context_retrieved r \<longleftrightarrow> success r)"
  proof (cases rule: request_cases [where validate = validate and input = input
                                     and generate = generate])
    case (validate_raises e)
    then show ?thesis
      by (simp add: request_validate_raises except_clauses_result initial_result_def)
  next
    case blocked
    then show ?thesis
      by (simp add: request_blocked initial_result_def)
  next
    case (generate_raises e)
    then show ?thesis
      by (simp add: request_generate_raises except_clauses_result initial_result_def)
  next
    case (responded reply)
    then show ?thesis
      by (simp add: request_responded initial_result_def)
  qed
next
  assume "fst (validate_prompt_safety generate_content input) = Inr True \<and>
    retrieve_relevant_context search input = Inr rows \<and>
    generate_assistant_response search chat input = Inl e \<and>
    class_of e = ResponseGenerationError"
  then show "alaska_agent generate_content search chat rid input =
        Inr \<lparr>request_id = rid, user_input = input, response = default_error_message,
             success = False, error = Some (str_of e), safety_passed = True,
             context_retrieved = False\<rparr>"
    unfolding alaska_agent_def
    by (simp add: request_generate_raises except_clauses_result initial_result_def)
qed

lemma upper_strip_SAFE: "upper (strip ''SAFE'') = codes ''SAFE''"
  by (simp add: upper_def strip_def isspace_def upper_char_def codes_def)

theorem context_retrieved_iff_success_witness:
  "alaska_agent (\<lambda>p. Inr ''SAFE'')
     (\<lambda>q. Inr [\<lparr>query = q, question = ''Who plows my street?'',
                 answer = ''Your regional office.'', distance = 1 / 4\<rparr>])
     (\<lambda>p. Inl (Exn Exception ''quota exceeded'')) 7 ''Who plows?'' =
     Inr \<lparr>request_id = 7, user_input = ''Who plows?'', response = default_error_message,
          success = False, error = Some ''Failed to generate response: quota exceeded'',
          safety_passed = True, context_retrieved = False\<rparr>"
proof -
  let ?gc = "\<lambda>p :: string. (Inr ''SAFE'' :: exn + string)"
  let ?rows = "\<lambda>q. [\<lparr>query = q, question = ''Who plows my street?'',
                       answer = ''Your regional office.'', distance = 1 / 4\<rparr>]"
  let ?search = "\<lambda>q :: string. (Inr (?rows q) :: exn + faq_row list)"
  let ?chat = "\<lambda>p :: string. (Inl (Exn Exception ''quota exceeded'') :: exn + string option)"
  let ?e = "Exn ResponseGenerationError ''Failed to generate response: quota exceeded''"
  have safe: "fst (validate_prompt_safety ?gc ''Who plows?'') = Inr True"
    by (simp add: validate_prompt_safety_def upper_strip_SAFE)
       (simp add: strip_def isspace_def)
  have rows: "retrieve_relevant_context ?search ''Who plows?'' = Inr (?rows ''Who plows?'')"
    by (simp add: retrieve_relevant_context_def)
  have raised: "generate_assistant_response ?search ?chat ''Who plows?'' = Inl ?e"
    by (simp add: generate_assistant_response_def generate_body_def rows isinstance_def)
  from context_retrieved_iff_success
         [where generate_content = ?gc and input = "''Who plows?''" and search = ?search
            and rows = "?rows ''Who plows?''" and chat = ?chat and e = ?e and rid = 7]
       safe rows raised
  show ?thesis by simp
qed


section \<open>The safety gate\<close>

text \<open>
  C3. On an empty or white-space prompt \<open>validate_prompt_safety\<close> returns \<open>False\<close>
  and sends nothing to the classifier. On any other prompt it sends exactly one request,
  the safety prompt; when the classifier answers with a text, the result is \<open>True\<close>
  exactly when the text, stripped and upper-cased, is SAFE (so it is \<open>False\<close> for UNSAFE
  and for every other answer); when the classifier call fails, the method raises
  \<open>SafetyValidationError\<close>.
\<close>

theorem validate_prompt_safety_contract:
  "(prompt = [] \<or> strip prompt = [] \<longrightarrow>
      validate_prompt_safety generate_content prompt = (Inr False, [])) \<and>
   (\<not> (prompt = [] \<or> strip prompt = []) \<longrightarrow>
      snd (validate_prompt_safety generate_content prompt) = [safety_prompt_template prompt] \<and>
      (\<forall>reply. generate_content (safety_prompt_template prompt) = Inr reply \<longrightarrow>
         fst (validate_prompt_safety generate_content prompt) =
           Inr (upper (strip reply) = codes ''SAFE'')) \<and>
      (\<forall>e. generate_content (safety_prompt_template prompt) = Inl e \<longrightarrow>
         fst (validate_prompt_safety generate_content prompt) =
           Inl (Exn SafetyValidationError (''Safety validation error: '' @ str_of e))))"
  by (simp add: validate_prompt_safety_def Let_def)

lemma strip_blank: "strip ''   '' = []"
  by (simp add: strip_def isspace_def)

lemma strip_question: "strip ''How do I get a snow removal permit?'' \<noteq> []"
  by (simp add: strip_def isspace_def)

lemma classification_examples:
  "upper (strip '' safe\<newline>'') = codes ''SAFE''"
  "upper (strip ''UNSAFE'') \<noteq> codes ''SAFE''"
  "upper (strip ''SAFE.'') \<noteq> codes ''SAFE''"
  "upper (strip ''SAFE SAFE'') \<noteq> codes ''SAFE''"
  "upper (strip ''MAYBE'') \<noteq> codes ''SAFE''"
  "upper (strip []) \<noteq> codes ''SAFE''"
  by (simp_all add: upper_def strip_def isspace_def upper_char_def codes_def)

theorem validate_prompt_safety_contract_witness:
  "validate_prompt_safety (\<lambda>p. Inr ''SAFE'') ''   '' = (Inr False, []) \<and>
   validate_prompt_safety (\<lambda>p. Inr '' safe\<newline>'') ''How do I get a snow removal permit?'' =
     (Inr True, [safety_prompt_template ''How do I get a snow removal permit?'']) \<and>
   fst (validate_prompt_safety (\<lambda>p. Inr ''UNSAFE'') ''How do I get a snow removal permit?'') =
     Inr False \<and>
   fst (validate_prompt_safety (\<lambda>p. Inr ''SAFE.'') ''How do I get a snow removal permit?'') =
     Inr False \<and>
   fst (validate_prompt_safety (\<lambda>p. Inr ''MAYBE'') ''How do I get a snow removal permit?'') =
     Inr False \<and>
   fst (validate_prompt_safety (\<lambda>p. Inr []) ''How do I get a snow removal permit?'') =
     Inr False \<and>
   fst (validate_prompt_safety (\<lambda>p. Inl (Exn Exception ''Model error''))
          ''How do I get a snow removal permit?'') =
     Inl (Exn SafetyValidationError ''Safety validation error: Model error'')"
proof -
  let ?q = "''How do I get a snow removal permit?''"
  have blank: "''   '' = [] \<or> strip ''   '' = []"
    by (simp add: strip_blank)
  have q: "\<not> (?q = [] \<or> strip ?q = [])"
    using strip_question by simp
  note c = validate_prompt_safety_contract
  from c [of "''   ''" "\<lambda>p. Inr ''SAFE''"] blank
  have 1: "validate_prompt_safety (\<lambda>p. Inr ''SAFE'') ''   '' = (Inr False, [])"
    by blast
  from c [of ?q "\<lambda>p. Inr '' safe\<newline>''"] q
  have 2: "validate_prompt_safety (\<lambda>p. Inr '' safe\<newline>'') ?q =
             (Inr True, [safety_prompt_template ?q])"
    by (simp add: classification_examples prod_eq_iff)
  from c [of ?q "\<lambda>p. Inr ''UNSAFE''"] q
  have 3: "fst (validate_prompt_safety (\<lambda>p. Inr ''UNSAFE'') ?q) = Inr False"
    by (simp add: classification_examples)
  from c [of ?q "\<lambda>p. Inr ''SAFE.''"] q
  have 4: "fst (validate_prompt_safety (\<lambda>p. Inr ''SAFE.'') ?q) = Inr False"
    by (simp add: classification_examples)
  from c [of ?q "\<lambda>p. Inr ''MAYBE''"] q
  have 5: "fst (validate_prompt_safety (\<lambda>p. Inr ''MAYBE'') ?q) = Inr False"
    by (simp add: classification_examples)
  from c [of ?q "\<lambda>p. Inr []"] q
  have 6: "fst (validate_prompt_safety (\<lambda>p. Inr []) ?q) = Inr False"
    by (simp add: classification_examples)
  from c [of ?q "\<lambda>p. Inl (Exn Exception ''Model error'')"] q
  have 7: "fst (validate_prompt_safety (\<lambda>p. Inl (Exn Exception ''Model error'')) ?q) =
             Inl (Exn SafetyValidationError ''Safety validation error: Model error'')"
    by simp
  from 1 2 3 4 5 6 7 show ?thesis by blast
qed

section \<open>The prompt composer\<close>

lemma foldl_sections:
  "foldl (\<lambda>sections row. sections @ [f row]) acc rows = acc @ map f rows"
  by (induction rows arbitrary: acc) simp_all

lemma sublist_join: "x \<in> set xs \<Longrightarrow> sublist x (join sep xs)"
proof (induction sep xs rule: join.induct)
  case (1 sep)
  then show ?case by simp
next
  case (2 sep y)
  then show ?case by simp
next
  case (3 sep y z zs)
  show ?case
  proof (cases "x = y")
    case True
    then show ?thesis by simp
  next
    case False
    with 3 have "sublist x (join sep (z # zs))" by simp
    then obtain ps ss where "join sep (z # zs) = ps @ x @ ss"
      by (auto simp: sublist_def)
    then have "join sep (y # z # zs) = (y @ sep @ ps) @ x @ ss" by simp
    then show ?thesis unfolding sublist_def by blast
  qed
qed

lemma sublist_middle: "sublist x m \<Longrightarrow> sublist x (a @ m @ b)"
  by (metis sublist_appendI sublist_order.order_trans)

text \<open>
  C5. \<open>build_context_prompt\<close> has two branches. Without rows it returns the fallback
  text, which says that no specific FAQ information was found, holds the user's
  question as it is and asks to direct the user to the department. With rows it returns
  the CONTEXT section, made of one Q:/A: block per row in the order of the rows, joined by
  an empty line, then the USER QUESTION section with the user's input as it is, then the
  request to answer from the context.
\<close>

theorem build_context_prompt_branches:
  "(context_df = [] \<longrightarrow>
      build_context_prompt input context_df =
        ''No specific FAQ information found for this query. User question: '' @ input @
        ''\<newline>\<newline>Please provide a helpful response directing them to contact the Alaska Snow Department directly.'') \<and>
   (context_df \<noteq> [] \<longrightarrow>
      build_context_prompt input context_df =
        ''Based on the following Alaska Snow Department FAQ information, please answer the user's question:\<newline>\<newline>=== CONTEXT ===\<newline>'' @
        join ''\<newline>\<newline>''
          (map (\<lambda>row. ''Q: '' @ question row @ ''\<newline>A: '' @ answer row) context_df) @
        ''\<newline>\<newline>=== USER QUESTION ===\<newline>'' @ input @
        ''\<newline>\<newline>Please provide a helpful, accurate response based on the context above.'' \<and>
      (\<forall>row \<in> set context_df.
         sublist (''Q: '' @ question row @ ''\<newline>A: '' @ answer row)
           (build_context_prompt input context_df))) \<and>
   sublist input (build_context_prompt input context_df)"
proof (intro conjI impI ballI)
  assume "context_df = []"
  then show "build_context_prompt input context_df =
        ''No specific FAQ information found for this query. User question: '' @ input @
        ''\<newline>\<newline>Please provide a helpful response directing them to contact the Alaska Snow Department directly.''"
    by (simp add: build_context_prompt_def)
next
  assume "context_df \<noteq> []"
  then show "build_context_prompt input context_df =
        ''Based on the following Alaska Snow Department FAQ information, please answer the user's question:\<newline>\<newline>=== CONTEXT ===\<newline>'' @
        join ''\<newline>\<newline>''
          (map (\<lambda>row. ''Q: '' @ question row @ ''\<newline>A: '' @ answer row) context_df) @
        ''\<newline>\<newline>=== USER QUESTION ===\<newline>'' @ input @
        ''\<newline>\<newline>Please provide a helpful, accurate response based on the context above.''"
    by (simp add: build_context_prompt_def foldl_sections)
next
  fix row
  assume ne: "context_df \<noteq> []" and row: "row \<in> set context_df"
  let ?block = "\<lambda>row. ''Q: '' @ question row @ ''\<newline>A: '' @ answer row"
  from row have "sublist (?block row) (join ''\<newline>\<newline>'' (map ?block context_df))"
    by (intro sublist_join) simp
  then have "sublist (?block row)
     ((''Based on the following Alaska Snow Department FAQ information, '' @
       ''please answer the user's question:\<newline>\<newline>'' @ ''=== CONTEXT ===\<newline>'') @
      join ''\<newline>\<newline>'' (map ?block context_df) @
      (''\<newline>\<newline>'' @ ''=== USER QUESTION ===\<newline>'' @ input @ ''\<newline>\<newline>'' @
       ''Please provide a helpful, accurate response based on the context above.''))"
    by (rule sublist_middle)
  with ne show "sublist (?block row) (build_context_prompt input context_df)"
    by (simp add: build_context_prompt_def foldl_sections)
next
  show "sublist input (build_context_prompt input context_df)"
  proof (cases "context_df = []")
    case True
    have "sublist input
        (''No specific FAQ information found for this query. User question: '' @ input @
         ''\<newline>\<newline>Please provide a helpful response directing them to contact the Alaska Snow Department directly.'')"
      by (rule sublist_appendI)
    with True show ?thesis by (simp add: build_context_prompt_def)
  next
    case False
    let ?block = "\<lambda>row. ''Q: '' @ question row @ ''\<newline>A: '' @ answer row"
    have "sublist input
       ((''Based on the following Alaska Snow Department FAQ information, '' @
         ''please answer the user's question:\<newline>\<newline>'' @ ''=== CONTEXT ===\<newline>'' @
         join ''\<newline>\<newline>'' (map ?block context_df) @
         ''\<newline>\<newline>'' @ ''=== USER QUESTION ===\<newline>'') @ input @
        (''\<newline>\<newline>'' @
         ''Please provide a helpful, accurate response based on the context above.''))"
      by (rule sublist_appendI)
    with False show ?thesis by (simp add: build_context_prompt_def foldl_sections)
  qed
qed

theorem build_context_prompt_branches_witness:
  "build_context_prompt ''Who plows?'' [] =
     ''No specific FAQ information found for this query. User question: Who plows?\<newline>\<newline>Please provide a helpful response directing them to contact the Alaska Snow Department directly.'' \<and>
   build_context_prompt ''Who plows?''
     [\<lparr>query = ''Who plows?'', question = ''Who plows my street?'',
       answer = ''Your regional office.'', distance = 1 / 4\<rparr>,
      \<lparr>query = ''Who plows?'', question = ''When are roads plowed?'',
       answer = ''After every storm.'', distance = 1 / 2\<rparr>] =
     ''Based on the following Alaska Snow Department FAQ information, please answer the user's question:\<newline>\<newline>=== CONTEXT ===\<newline>Q: Who plows my street?\<newline>A: Your regional office.\<newline>\<newline>Q: When are roads plowed?\<newline>A: After every storm.\<newline>\<newline>=== USER QUESTION ===\<newline>Who plows?\<newline>\<newline>Please provide a helpful, accurate response based on the context above.'' \<and>
   sublist ''Q: When are roads plowed?\<newline>A: After every storm.''
     (build_context_prompt ''Who plows?''
        [\<lparr>query = ''Who plows?'', question = ''Who plows my street?'',
          answer = ''Your regional office.'', distance = 1 / 4\<rparr>,
         \<lparr>query = ''Who plows?'', question = ''When are roads plowed?'',
          answer = ''After every storm.'', distance = 1 / 2\<rparr>])"
proof -
  let ?r1 = "\<lparr>query = ''Who plows?'', question = ''Who plows my street?'',
               answer = ''Your regional office.'', distance = 1 / 4\<rparr>"
  let ?r2 = "\<lparr>query = ''Who plows?'', question = ''When are roads plowed?'',
               answer = ''After every storm.'', distance = 1 / 2\<rparr>"
  note b = build_context_prompt_branches
  from b [of "[]" "''Who plows?''"]
  have 1: "build_context_prompt ''Who plows?'' [] =
     ''No specific FAQ information found for this query. User question: Who plows?\<newline>\<newline>Please provide a helpful response directing them to contact the Alaska Snow Department directly.''"
    by simp
  have ne: "[?r1, ?r2] \<noteq> []" by simp
  from b [of "[?r1, ?r2]" "''Who plows?''"] ne
  have 2: "build_context_prompt ''Who plows?'' [?r1, ?r2] =
     ''Based on the following Alaska Snow Department FAQ information, please answer the user's question:\<newline>\<newline>=== CONTEXT ===\<newline>Q: Who plows my street?\<newline>A: Your regional office.\<newline>\<newline>Q: When are roads plowed?\<newline>A: After every storm.\<newline>\<newline>=== USER QUESTION ===\<newline>Who plows?\<newline>\<newline>Please provide a helpful, accurate response based on the context above.''"
    by simp
  have mem: "?r2 \<in> set [?r1, ?r2]" by simp
  from b [of "[?r1, ?r2]" "''Who plows?''"] ne
  have "\<forall>row \<in> set [?r1, ?r2].
          sublist (''Q: '' @ question row @ ''\<newline>A: '' @ answer row)
            (build_context_prompt ''Who plows?'' [?r1, ?r2])"
    by blast
  from this [rule_format, OF mem]
  have 3: "sublist ''Q: When are roads plowed?\<newline>A: After every storm.''
             (build_context_prompt ''Who plows?'' [?r1, ?r2])"
    by simp
  from 1 2 3 show ?thesis by blast
qed

section \<open>The answer generator\<close>

text \<open>
  C6. A reply of the chat model made of white space only passes the check for an empty
  reply, which looks at the text before it is stripped; \<open>generate_assistant_response\<close>
  then returns the empty text and raises nothing.
\<close>

theorem generate_assistant_response_blank_reply:
  "generate_assistant_response (\<lambda>q. Inr []) (\<lambda>p. Inr (Some ''   ''))
     ''What are your office hours?'' = Inr []"
  by (simp add: generate_assistant_response_def generate_body_def
                retrieve_relevant_context_def strip_def isspace_def)

lemma generate_assistant_response_faults:
  "chat (build_context_prompt input rows) = Inl e \<Longrightarrow> search input = Inr rows \<Longrightarrow>
   class_of e \<noteq> RAGRetrievalError \<Longrightarrow>
   generate_assistant_response search chat input =
     Inl (Exn ResponseGenerationError (''Failed to generate response: '' @ str_of e))"
  "chat (build_context_prompt input rows) = Inr (Some []) \<Longrightarrow> search input = Inr rows \<Longrightarrow>
   generate_assistant_response search chat input =
     Inl (Exn ResponseGenerationError
            ''Failed to generate response: Model returned empty response'')"
  "chat (build_context_prompt input rows) = Inr (Some reply) \<Longrightarrow> search input = Inr rows \<Longrightarrow>
   reply \<noteq> [] \<Longrightarrow>
   generate_assistant_response search chat input = Inr (strip reply)"
  by (simp_all add: generate_assistant_response_def generate_body_def
                    retrieve_relevant_context_def isinstance_def)

section \<open>The evaluator\<close>

text \<open>
  The two scans on a text with a lower-case letter after a question mark and with an
  apostrophe: no sentence starts at the lower-case letter, and the apostrophe ends a word.
\<close>

lemma scan_examples:
  "split_into_sentences ''  It's open!  You ok? yes. No.\<newline>Bye  '' =
     [''It's open!'', ''You ok? yes.'', ''No.'', ''Bye'']"
  "tokenize_words ''It's open! 42nd_street'' = [''it'', ''s'', ''open'', ''42nd_street'']"
  by code_simp+

section \<open>White space at the ends\<close>

lemma sentence_end_not_space: "sentence_end c \<Longrightarrow> \<not> isspace c"
  by (auto simp: sentence_end_def isspace_def)

lemma A_Z_not_space: "is_A_Z c \<Longrightarrow> \<not> isspace c"
  by (auto simp: is_A_Z_def isspace_def Let_def)

lemma dropWhile_last_kept:
  "xs \<noteq> [] \<Longrightarrow> \<not> P (last xs) \<Longrightarrow> dropWhile P xs \<noteq> [] \<and> last (dropWhile P xs) = last xs"
  by (induction xs) auto

lemma rstrip_split: "xs = rev (dropWhile P (rev xs)) @ rev (takeWhile P (rev xs))"
proof -
  have "rev (rev xs) = rev (takeWhile P (rev xs) @ dropWhile P (rev xs))"
    by simp
  then show ?thesis by (simp only: rev_rev_ident rev_append)
qed

lemma strip_ends_nonspace:
  assumes "a \<noteq> []" "\<not> isspace (last a)"
  shows "strip a = dropWhile isspace a" "strip a \<noteq> []" "last (strip a) = last a"
proof -
  let ?l = "dropWhile isspace a"
  from assms have l: "?l \<noteq> []" "last ?l = last a"
    using dropWhile_last_kept [of a isspace] by simp_all
  then have "hd (rev ?l) = last a" by (simp add: hd_rev)
  with assms l have "dropWhile isspace (rev ?l) = rev ?l"
    by (cases "rev ?l") auto
  then show "strip a = ?l" by (simp add: strip_def)
  with l show "strip a \<noteq> []" "last (strip a) = last a" by simp_all
qed

lemma strip_starts_nonspace:
  assumes "b \<noteq> []" "\<not> isspace (hd b)"
  shows "strip b = rev (dropWhile isspace (rev b))" "strip b \<noteq> []" "hd (strip b) = hd b"
proof -
  from assms have d: "dropWhile isspace b = b" by (cases b) auto
  then show s: "strip b = rev (dropWhile isspace (rev b))" by (simp add: strip_def)
  from assms have "rev b \<noteq> []" "\<not> isspace (last (rev b))" by (simp_all add: last_rev)
  with dropWhile_last_kept [of "rev b" isspace]
  have "dropWhile isspace (rev b) \<noteq> []" "last (dropWhile isspace (rev b)) = hd b"
    by (simp_all add: last_rev)
  with s show "strip b \<noteq> []" "hd (strip b) = hd b" by (simp_all add: hd_rev)
qed

lemma strip_around_gap:
  assumes "a \<noteq> []" "\<not> isspace (last a)" "b \<noteq> []" "\<not> isspace (hd b)"
  shows "strip (a @ ws @ b) = strip a @ ws @ strip b"
proof -
  from assms have la: "last a \<in> set a" by simp
  from la assms have 1: "dropWhile isspace (a @ ws @ b) = dropWhile isspace a @ ws @ b"
    using dropWhile_append1 [of "last a" a isspace "ws @ b"] by simp
  from assms have hb: "hd b \<in> set (rev b)" by simp
  from hb assms
  have 2: "dropWhile isspace (rev b @ rev ws @ rev (dropWhile isspace a)) =
           dropWhile isspace (rev b) @ rev ws @ rev (dropWhile isspace a)"
    using dropWhile_append1 [of "hd b" "rev b" isspace "rev ws @ rev (dropWhile isspace a)"]
    by simp
  from 1 2 have "strip (a @ ws @ b) =
                 dropWhile isspace a @ ws @ rev (dropWhile isspace (rev b))"
    by (simp add: strip_def)
  with strip_ends_nonspace(1) [OF assms(1,2)] strip_starts_nonspace(1) [OF assms(3,4)]
  show ?thesis by simp
qed

lemma strip_decompose: "\<exists>l r. s = l @ strip s @ r"
proof -
  let ?d = "dropWhile isspace s"
  let ?t = "rev (takeWhile isspace (rev ?d))"
  have 2: "strip s @ ?t = ?d"
    unfolding strip_def by (rule rstrip_split [symmetric])
  have "takeWhile isspace s @ strip s @ ?t = takeWhile isspace s @ ?d"
    by (simp only: 2)
  also have "\<dots> = s" by simp
  finally have "s = takeWhile isspace s @ strip s @ ?t" by (rule sym)
  then show ?thesis by blast
qed

lemma strip_idem: "strip (strip s) = strip s"
proof (cases "strip s = []")
  case True
  have "strip [] = []" by (simp add: strip_def)
  with True show ?thesis by simp
next
  case False
  let ?d = "dropWhile isspace s"
  let ?r = "dropWhile isspace (rev ?d)"
  let ?t = "rev (takeWhile isspace (rev ?d))"
  have s: "strip s = rev ?r" by (simp add: strip_def)
  with False have r: "?r \<noteq> []" by simp
  have "\<not> isspace (hd ?r)" using r by (rule hd_dropWhile)
  with r s have last: "\<not> isspace (last (strip s))" by (simp add: last_rev)
  have d: "strip s @ ?t = ?d"
    unfolding strip_def by (rule rstrip_split [symmetric])
  have dne: "?d \<noteq> []"
  proof
    assume e: "?d = []"
    have "strip s = []" unfolding strip_def e by simp
    with False show False by simp
  qed
  have nd: "\<not> isspace (hd ?d)" using dne by (rule hd_dropWhile)
  from False have "hd (strip s @ ?t) = hd (strip s)" by simp
  then have "hd ?d = hd (strip s)" by (simp only: d)
  with nd have "\<not> isspace (hd (strip s))" by simp
  with False have "dropWhile isspace (strip s) = strip s" by (cases "strip s") auto
  with strip_ends_nonspace(1) [OF False last] show ?thesis by simp
qed

section \<open>Sentence boundaries\<close>

lemma gap_then_letter:
  assumes "list_all isspace ws" "\<not> isspace d"
  shows "dropWhile isspace (ws @ d # b) = d # b" "takeWhile isspace (ws @ d # b) = ws"
  using assms by (simp_all add: list_all_iff dropWhile_append2 takeWhile_append2)

lemma sentence_boundary_Nil: "\<not> sentence_boundary letter []"
  by (simp add: sentence_boundary_def)

lemma sentence_boundary_inside:
  "sentence_boundary letter s \<Longrightarrow> sentence_boundary letter (l @ s @ r)"
proof -
  assume "sentence_boundary letter s"
  then obtain a c ws d b where
    s: "s = a @ c # ws @ d # b" and
    p: "sentence_end c" "ws \<noteq> []" "list_all isspace ws" "letter d"
    unfolding sentence_boundary_def by blast
  from s have "l @ s @ r = (l @ a) @ c # ws @ d # (b @ r)" by simp
  with p show ?thesis unfolding sentence_boundary_def by blast
qed

lemma sentence_boundary_Cons:
  "sentence_boundary is_A_Z (x # xs) \<longleftrightarrow>
     (sentence_end x \<and> xs \<noteq> [] \<and> isspace (hd xs) \<and> lookahead (dropWhile isspace xs)) \<or>
     sentence_boundary is_A_Z xs"
proof
  assume "sentence_boundary is_A_Z (x # xs)"
  then obtain a c ws d b where
    s: "x # xs = a @ c # ws @ d # b" and
    p: "sentence_end c" "ws \<noteq> []" "list_all isspace ws" "is_A_Z d"
    unfolding sentence_boundary_def by blast
  show "(sentence_end x \<and> xs \<noteq> [] \<and> isspace (hd xs) \<and> lookahead (dropWhile isspace xs)) \<or>
        sentence_boundary is_A_Z xs"
  proof (cases a)
    case Nil
    with s have x: "x = c" and xs: "xs = ws @ d # b" by simp_all
    from p have nd: "\<not> isspace d" by (simp add: A_Z_not_space)
    from p have "isspace (hd ws)" by (cases ws) simp_all
    with p xs have "isspace (hd xs)" by simp
    moreover from gap_then_letter(1) [OF p(3) nd] xs p
    have "lookahead (dropWhile isspace xs)" by (simp add: lookahead_def)
    ultimately show ?thesis using x xs p by simp
  next
    case (Cons a0 a')
    with s have "xs = a' @ c # ws @ d # b" by simp
    with p have "sentence_boundary is_A_Z xs" unfolding sentence_boundary_def by blast
    then show ?thesis by simp
  qed
next
  assume "(sentence_end x \<and> xs \<noteq> [] \<and> isspace (hd xs) \<and> lookahead (dropWhile isspace xs)) \<or>
          sentence_boundary is_A_Z xs"
  then show "sentence_boundary is_A_Z (x # xs)"
  proof
    assume h: "sentence_end x \<and> xs \<noteq> [] \<and> isspace (hd xs) \<and> lookahead (dropWhile isspace xs)"
    then obtain d b where db: "dropWhile isspace xs = d # b" and d: "is_A_Z d"
      by (auto simp: lookahead_def split: list.splits)
    let ?ws = "takeWhile isspace xs"
    from h have ne: "?ws \<noteq> []" by (cases xs) simp_all
    have all: "list_all isspace ?ws" by (simp add: list_all_iff) (meson set_takeWhileD)
    have "xs = ?ws @ dropWhile isspace xs" by simp
    with db have "x # xs = [] @ x # ?ws @ d # b" by simp
    with h ne all d show ?thesis unfolding sentence_boundary_def by blast
  next
    assume "sentence_boundary is_A_Z xs"
    from sentence_boundary_inside [OF this, of "[x]" "[]"] show ?thesis by simp
  qed
qed

section \<open>The sentence scan\<close>

lemma re_split_match:
  assumes "lookbehind prev" "isspace c" "lookahead (dropWhile isspace cs)"
  shows "re_split prev piece (c # cs) =
         piece # re_split (Some (last (c # takeWhile isspace cs))) [] (dropWhile isspace cs)"
proof -
  from assms have t: "(lookbehind prev \<and> isspace c \<and> lookahead (dropWhile isspace cs)) = True"
    by simp
  show ?thesis by (subst re_split.simps) (simp only: t if_True)
qed

lemma re_split_step:
  assumes "\<not> (lookbehind prev \<and> isspace c \<and> lookahead (dropWhile isspace cs))"
  shows "re_split prev piece (c # cs) = re_split (Some c) (piece @ [c]) cs"
proof -
  from assms have t: "(lookbehind prev \<and> isspace c \<and> lookahead (dropWhile isspace cs)) = False"
    by simp
  show ?thesis by (subst re_split.simps) (simp only: t if_False)
qed

declare re_split.simps(2) [simp del]

lemma re_split_first_nonspace:
  "s \<noteq> [] \<Longrightarrow> \<not> isspace (hd s) \<Longrightarrow> re_split p piece s = re_split q piece s"
  by (cases s) (simp_all add: re_split_step)

lemma re_split_no_boundary:
  "\<not> sentence_boundary is_A_Z (p # s) \<Longrightarrow> re_split (Some p) piece s = [piece @ s]"
proof (induction s arbitrary: p piece)
  case Nil
  show ?case by simp
next
  case (Cons c cs)
  from Cons.prems
  have t: "\<not> (sentence_end p \<and> isspace c \<and> lookahead (dropWhile isspace (c # cs)))"
    and n: "\<not> sentence_boundary is_A_Z (c # cs)"
    by (simp_all add: sentence_boundary_Cons [of p])
  from t have "\<not> (lookbehind (Some p) \<and> isspace c \<and> lookahead (dropWhile isspace cs))"
    by (auto simp: lookbehind_def)
  then have "re_split (Some p) piece (c # cs) = re_split (Some c) (piece @ [c]) cs"
    by (rule re_split_step)
  with Cons.IH [OF n, of "piece @ [c]"] show ?case by simp
qed

lemma re_split_whole:
  "\<not> sentence_boundary is_A_Z s \<Longrightarrow> re_split None [] s = [s]"
proof (cases s)
  case Nil
  then show ?thesis by simp
next
  case (Cons c cs)
  assume "\<not> sentence_boundary is_A_Z s"
  with Cons have "re_split (Some c) ([] @ [c]) cs = [([] @ [c]) @ cs]"
    by (intro re_split_no_boundary) simp
  moreover have "re_split None [] (c # cs) = re_split (Some c) ([] @ [c]) cs"
    by (rule re_split_step) (simp add: lookbehind_def)
  ultimately show ?thesis using Cons by simp
qed

lemma re_split_at_boundary:
  "x \<noteq> [] \<Longrightarrow> sentence_end (last x) \<Longrightarrow> ws \<noteq> [] \<Longrightarrow> list_all isspace ws \<Longrightarrow>
   y \<noteq> [] \<Longrightarrow> is_A_Z (hd y) \<Longrightarrow>
   re_split prev piece (x @ ws @ y) = re_split prev piece x @ re_split None [] y"
proof (induction prev piece x rule: re_split.induct)
  case (1 prev piece)
  then show ?case by simp
next
  case (2 prev piece c cs)
  from "2.prems" obtain d y' where y: "y = d # y'" and d: "is_A_Z d"
    by (cases y) simp_all
  from d have nd: "\<not> isspace d" by (rule A_Z_not_space)
  from "2.prems" obtain w ws' where ws: "ws = w # ws'" and w: "isspace w"
    and ws': "list_all isspace ws'"
    by (cases ws) simp_all
  show ?case
  proof (cases "cs = []")
    case True
    with "2.prems" have c: "sentence_end c" by simp
    then have nc: "\<not> isspace c" by (rule sentence_end_not_space)
    from gap_then_letter [OF ws' nd, of y']
    have g: "dropWhile isspace (ws' @ d # y') = d # y'" by simp
    let ?q = "Some (last (w # takeWhile isspace (ws' @ d # y')))"
    have "re_split prev piece (c # w # ws' @ d # y') =
          re_split (Some c) (piece @ [c]) (w # ws' @ d # y')"
      using nc by (intro re_split_step) simp
    also have "\<dots> = (piece @ [c]) # re_split ?q [] (dropWhile isspace (ws' @ d # y'))"
      using c w d g by (intro re_split_match) (simp_all add: lookbehind_def lookahead_def)
    also have "\<dots> = (piece @ [c]) # re_split ?q [] (d # y')"
      by (simp only: g)
    also have "re_split ?q [] (d # y') = re_split None [] (d # y')"
      using nd by (intro re_split_first_nonspace) simp_all
    finally have lhs: "re_split prev piece (c # w # ws' @ d # y') =
                       (piece @ [c]) # re_split None [] (d # y')" .
    have "re_split prev piece [c] = re_split (Some c) (piece @ [c]) []"
      using nc by (intro re_split_step) simp
    then have rhs: "re_split prev piece [c] = [piece @ [c]]" by simp
    from lhs rhs True show ?thesis by (simp add: y ws)
  next
    case False
    with "2.prems" have l: "sentence_end (last cs)" by simp
    then have nl: "\<not> isspace (last cs)" by (rule sentence_end_not_space)
    from False have mem: "last cs \<in> set cs" by simp
    from dropWhile_append1 [of "last cs" cs isspace "ws @ y"] mem nl
    have dw: "dropWhile isspace (cs @ ws @ y) = dropWhile isspace cs @ ws @ y" by simp
    from takeWhile_append1 [of "last cs" cs isspace "ws @ y"] mem nl
    have tw: "takeWhile isspace (cs @ ws @ y) = takeWhile isspace cs" by simp
    from dropWhile_last_kept [of cs isspace] False nl
    have k: "dropWhile isspace cs \<noteq> []" "last (dropWhile isspace cs) = last cs" by simp_all
    from k have la: "lookahead (dropWhile isspace cs @ ws @ y) = lookahead (dropWhile isspace cs)"
      by (cases "dropWhile isspace cs") (simp_all add: lookahead_def)
    show ?thesis
    proof (cases "lookbehind prev \<and> isspace c \<and> lookahead (dropWhile isspace cs)")
      case True
      let ?q = "Some (last (c # takeWhile isspace cs))"
      from k l have "sentence_end (last (dropWhile isspace cs))" by simp
      from "2.IH"(1) [OF True k(1) this "2.prems"(3-6)]
      have ih: "re_split ?q [] (dropWhile isspace cs @ ws @ y) =
                re_split ?q [] (dropWhile isspace cs) @ re_split None [] y" .
      have "re_split prev piece (c # cs @ ws @ y) =
            piece # re_split (Some (last (c # takeWhile isspace (cs @ ws @ y)))) []
                      (dropWhile isspace (cs @ ws @ y))"
        using True by (intro re_split_match) (simp_all add: dw la)
      also have "\<dots> = piece # re_split ?q [] (dropWhile isspace cs @ ws @ y)"
        by (simp only: tw dw)
      also have "\<dots> = piece # re_split ?q [] (dropWhile isspace cs) @ re_split None [] y"
        by (simp only: ih)
      finally have lhs: "re_split prev piece (c # cs @ ws @ y) =
             piece # re_split ?q [] (dropWhile isspace cs) @ re_split None [] y" .
      have "re_split prev piece (c # cs) = piece # re_split ?q [] (dropWhile isspace cs)"
        using True by (intro re_split_match) simp_all
      with lhs show ?thesis by simp
    next
      case F: False
      from "2.IH"(2) [OF F False l "2.prems"(3-6)]
      have ih: "re_split (Some c) (piece @ [c]) (cs @ ws @ y) =
                re_split (Some c) (piece @ [c]) cs @ re_split None [] y" .
      have "re_split prev piece (c # cs @ ws @ y) = re_split (Some c) (piece @ [c]) (cs @ ws @ y)"
        using F by (intro re_split_step) (simp add: dw la)
      moreover have "re_split prev piece (c # cs) = re_split (Some c) (piece @ [c]) cs"
        using F by (rule re_split_step)
      ultimately show ?thesis using ih by simp
    qed
  qed
qed

section \<open>Sentences and words of a text\<close>

lemma split_into_sentences_at_boundary:
  assumes "a \<noteq> []" "sentence_end (last a)" "ws \<noteq> []" "list_all isspace ws"
    "b \<noteq> []" "is_A_Z (hd b)"
  shows "split_into_sentences (a @ ws @ b) = split_into_sentences a @ split_into_sentences b"
proof -
  from assms have na: "\<not> isspace (last a)" by (simp add: sentence_end_not_space)
  from assms have nb: "\<not> isspace (hd b)" by (simp add: A_Z_not_space)
  note sa = strip_ends_nonspace [OF assms(1) na]
  note sb = strip_starts_nonspace [OF assms(5) nb]
  have "strip (a @ ws @ b) = strip a @ ws @ strip b"
    using assms(1) na assms(5) nb by (rule strip_around_gap)
  moreover have "re_split None [] (strip a @ ws @ strip b) =
                 re_split None [] (strip a) @ re_split None [] (strip b)"
    using sa sb assms by (intro re_split_at_boundary) simp_all
  ultimately show ?thesis by (simp add: split_into_sentences_def)
qed

lemma split_into_sentences_no_boundary:
  assumes "\<not> sentence_boundary is_A_Z s"
  shows "split_into_sentences s = (if strip s = [] then [] else [strip s])"
proof -
  obtain l r where "s = l @ strip s @ r" using strip_decompose by blast
  with assms sentence_boundary_inside [of is_A_Z "strip s" l r]
  have "\<not> sentence_boundary is_A_Z (strip s)" by auto
  then have "re_split None [] (strip s) = [strip s]" by (rule re_split_whole)
  then show ?thesis by (simp add: split_into_sentences_def strip_idem)
qed

lemma is_word_char_lower: "is_word_char (lower_char c) = is_word_char c"
  by (auto simp: is_word_char_def lower_char_def Let_def)

lemma findall_words_separator:
  "\<not> is_word_char c \<Longrightarrow>
   findall_words w (a @ c # b) = findall_words w a @ findall_words [] b"
  by (induction a arbitrary: w) simp_all

lemma findall_words_run:
  "list_all is_word_char xs \<Longrightarrow>
   findall_words w xs = (if w @ xs = [] then [] else [w @ xs])"
  by (induction xs arbitrary: w) simp_all

lemma tokenize_words_separator:
  "\<not> is_word_char c \<Longrightarrow> tokenize_words (u @ c # v) = tokenize_words u @ tokenize_words v"
  by (simp add: tokenize_words_def lower_def findall_words_separator is_word_char_lower)

lemma tokenize_words_run:
  "list_all is_word_char w \<Longrightarrow> tokenize_words w = (if w = [] then [] else [lower w])"
proof -
  assume "list_all is_word_char w"
  then have "list_all is_word_char (lower w)"
    by (simp add: lower_def list_all_iff is_word_char_lower)
  from findall_words_run [OF this, of "[]"] show ?thesis
    by (simp add: tokenize_words_def lower_def)
qed

section \<open>The fluency score\<close>

text \<open>
  C7, as the specification words it, fails in two places. It has the sentences split at
  a \<open>.\<close>, \<open>!\<close> or \<open>?\<close> followed by white space and an upper-case letter: the
  upper-case letter with code point 201 after "Snow falls. " starts no sentence, the text
  is one sentence of five words and scores 5, where the same text with E scores 4. It has
  the words case-folded: the two words of the second text are equal under case folding
  and are counted as two distinct words, so the text scores 4, where the same text
  written with ss scores 3.5.
\<close>

theorem compute_fluency_score_upper_case_counterexample:
  "sentence_end (last ''Snow falls.'') \<and> list_all isspace '' '' \<and>
   isupper (hd (CHR 0xC9 # ''vitez la route.'')) \<and>
   split_into_sentences (''Snow falls.'' @ '' '' @ CHR 0xC9 # ''vitez la route.'') \<noteq>
     split_into_sentences ''Snow falls.'' @ split_into_sentences (CHR 0xC9 # ''vitez la route.'') \<and>
   compute_fluency_score (''Snow falls.'' @ '' '' @ CHR 0xC9 # ''vitez la route.'') = 5 \<and>
   compute_fluency_score (''Snow falls.'' @ '' '' @ ''Evitez la route.'') = 4 \<and>
   casefold (''Stra'' @ CHR 0xDF # ''e'') = casefold ''STRASSE'' \<and>
   tokenize_words (''Stra'' @ CHR 0xDF # ''e STRASSE'') =
     [''stra'' @ CHR 0xDF # ''e'', ''strasse''] \<and>
   compute_fluency_score (''Stra'' @ CHR 0xDF # ''e STRASSE'') = 4 \<and>
   compute_fluency_score ''Strasse STRASSE'' = 7 / 2"
  by code_simp

text \<open>
  C7. \<open>compute_fluency_score\<close> is 1 for an empty or white-space text and for a text
  without sentences or without words; otherwise it is the scoring rule of the
  specification at the average sentence length and the word variety of the text; in every
  case it lies between 1 and 5. The sentences are cut at each run of white space that
  follows a \<open>.\<close>, \<open>!\<close> or \<open>?\<close> and is followed by one of the letters A to Z, and
  a text without such a place is one sentence, its stripped text, or none when it is
  blank. The words are cut at every character that is not a word character, and a run of
  word characters is one word, in lower case.
\<close>

theorem compute_fluency_score_algorithm:
  "compute_fluency_score text =
     (if text = [] \<or> strip text = [] \<or> split_into_sentences text = [] \<or>
         tokenize_words text = [] then 1
      else fluency_rule
             (of_nat (length (tokenize_words text)) /
              of_nat (length (split_into_sentences text)))
             (of_nat (card (set (tokenize_words text))) /
              of_nat (length (tokenize_words text)))) \<and>
   1 \<le> compute_fluency_score text \<and> compute_fluency_score text \<le> 5 \<and>
   (a \<noteq> [] \<and> sentence_end (last a) \<and> ws \<noteq> [] \<and> list_all isspace ws \<and>
    b \<noteq> [] \<and> is_A_Z (hd b) \<longrightarrow>
      split_into_sentences (a @ ws @ b) = split_into_sentences a @ split_into_sentences b) \<and>
   (\<not> sentence_boundary is_A_Z s \<longrightarrow>
      split_into_sentences s = (if strip s = [] then [] else [strip s])) \<and>
   (\<not> is_word_char c \<longrightarrow>
      tokenize_words (u @ c # v) = tokenize_words u @ tokenize_words v) \<and>
   (list_all is_word_char w \<longrightarrow> tokenize_words w = (if w = [] then [] else [lower w]))"
proof (intro conjI impI)
  show "compute_fluency_score text =
     (if text = [] \<or> strip text = [] \<or> split_into_sentences text = [] \<or>
         tokenize_words text = [] then 1
      else fluency_rule
             (of_nat (length (tokenize_words text)) /
              of_nat (length (split_into_sentences text)))
             (of_nat (card (set (tokenize_words text))) /
              of_nat (length (tokenize_words text))))"
    by (simp add: compute_fluency_score_def fluency_rule_def Let_def)
  show "1 \<le> compute_fluency_score text"
    by (simp add: compute_fluency_score_def Let_def)
  show "compute_fluency_score text \<le> 5"
    by (simp add: compute_fluency_score_def Let_def)
next
  assume "a \<noteq> [] \<and> sentence_end (last a) \<and> ws \<noteq> [] \<and> list_all isspace ws \<and>
          b \<noteq> [] \<and> is_A_Z (hd b)"
  then show "split_into_sentences (a @ ws @ b) =
             split_into_sentences a @ split_into_sentences b"
    by (intro split_into_sentences_at_boundary) simp_all
next
  assume "\<not> sentence_boundary is_A_Z s"
  then show "split_into_sentences s = (if strip s = [] then [] else [strip s])"
    by (rule split_into_sentences_no_boundary)
next
  assume "\<not> is_word_char c"
  then show "tokenize_words (u @ c # v) = tokenize_words u @ tokenize_words v"
    by (rule tokenize_words_separator)
next
  assume "list_all is_word_char w"
  then show "tokenize_words w = (if w = [] then [] else [lower w])"
    by (rule tokenize_words_run)
qed

lemmas boundary_eval =
  sentence_boundary_Cons sentence_boundary_Nil sentence_end_def is_A_Z_def isspace_def
  lookahead_def

theorem compute_fluency_score_algorithm_witness:
  "split_into_sentences ''Roads close. Plows run? yes.'' =
     [''Roads close.'', ''Plows run? yes.''] \<and>
   tokenize_words ''Roads CLOSE'' = [''roads'', ''close''] \<and>
   compute_fluency_score ''Roads close. Plows run? yes.'' = 4 \<and>
   compute_fluency_score ''   '' = 1 \<and> compute_fluency_score ''?!'' = 1"
proof -
  let ?a = "''Roads close.''" and ?b = "''Plows run? yes.''"
  let ?t = "''Roads close. Plows run? yes.''"
  note alg = compute_fluency_score_algorithm
  have gap: "?a \<noteq> [] \<and> sentence_end (last ?a) \<and> '' '' \<noteq> [] \<and> list_all isspace '' '' \<and>
             ?b \<noteq> [] \<and> is_A_Z (hd ?b)"
    by (simp add: sentence_end_def isspace_def is_A_Z_def)
  have na: "\<not> sentence_boundary is_A_Z ?a"
    by (simp add: boundary_eval)
  have nb: "\<not> sentence_boundary is_A_Z ?b"
    by (simp add: boundary_eval)
  have sa: "strip ?a = ?a" and sb: "strip ?b = ?b"
    by (simp_all add: strip_def isspace_def)
  from alg [where a = ?a and ws = "'' ''" and b = ?b] gap
  have "split_into_sentences (?a @ '' '' @ ?b) =
        split_into_sentences ?a @ split_into_sentences ?b"
    by blast
  moreover from alg [where s = ?a] na sa have "split_into_sentences ?a = [?a]"
    by simp
  moreover from alg [where s = ?b] nb sb have "split_into_sentences ?b = [?b]"
    by simp
  ultimately have 1: "split_into_sentences ?t = [?a, ?b]"
    by simp
  have sep: "\<not> is_word_char CHR '' ''"
    by (simp add: is_word_char_def)
  have run: "list_all is_word_char ''Roads''" "list_all is_word_char ''CLOSE''"
    by (simp_all add: is_word_char_def)
  have low: "lower ''Roads'' = ''roads''" "lower ''CLOSE'' = ''close''"
    by code_simp+
  from alg [where c = "CHR '' ''" and u = "''Roads''" and v = "''CLOSE''"] sep
  have "tokenize_words (''Roads'' @ CHR '' '' # ''CLOSE'') =
        tokenize_words ''Roads'' @ tokenize_words ''CLOSE''"
    by blast
  moreover from alg [where w = "''Roads''"] run low have "tokenize_words ''Roads'' = [''roads'']"
    by simp
  moreover from alg [where w = "''CLOSE''"] run low have "tokenize_words ''CLOSE'' = [''close'']"
    by simp
  ultimately have 2: "tokenize_words ''Roads CLOSE'' = [''roads'', ''close'']"
    by simp
  have w: "tokenize_words ?t = [''roads'', ''close'', ''plows'', ''run'', ''yes'']"
    by code_simp
  have n: "strip ?t \<noteq> []" by code_simp
  have c: "card (set (tokenize_words ?t)) = 5"
    unfolding w by code_simp
  from alg [of ?t] n
  have "compute_fluency_score ?t = fluency_rule (5 / 2) 1"
    unfolding c unfolding 1 w by simp
  then have 3: "compute_fluency_score ?t = 4"
    by (simp add: fluency_rule_def)
  have "strip ''   '' = []" by code_simp
  with alg [of "''   ''"]
  have 4: "compute_fluency_score ''   '' = 1" by simp
  have "tokenize_words ''?!'' = []" by code_simp
  with alg [of "''?!''"]
  have 5: "compute_fluency_score ''?!'' = 1" by simp
  from 1 2 3 4 5 show ?thesis by blast
qed

text \<open>
  C8. The text "Snow. Department. Services. Available." has four sentences and four
  distinct words: the average sentence length 1 costs 1.5, the word variety 1 earns 0.5,
  and the score is 4.
\<close>

theorem compute_fluency_score_short_sentences:
  "compute_fluency_score ''Snow. Department. Services. Available.'' = 4"
  by code_simp

text \<open>
  C9. \<open>compute_semantic_similarity\<close> does not clamp: for a pair of texts whose
  embeddings have the cosine \<open>- 1 / 8\<close> it returns \<open>- 0.62\<close>.
\<close>

theorem compute_semantic_similarity_negative:
  "compute_semantic_similarity (\<lambda>reference prediction. Inr (- 1 / 8))
     ''Contact the Alaska Snow Department for road issues.''
     ''The weather is nice today.'' = - 31 / 50"
  by code_simp

lemma compute_semantic_similarity_cases:
  "cos_sim reference prediction = Inr c \<Longrightarrow>
   compute_semantic_similarity cos_sim reference prediction = round2 (c * 5)"
  "cos_sim reference prediction = Inl e \<Longrightarrow>
   compute_semantic_similarity cos_sim reference prediction = 0"
  by (simp_all add: compute_semantic_similarity_def)

end
